theory Spec2Isabelle
  imports Main "HOL-Library.Sublist"
begin

section \<open>Python strings\<close>

text \<open>
  A Python \<open>str\<close> is a sequence of Unicode code points; a code point is a natural
  number. ASCII literals of the source are written \<open>str ''...''\<close>; the Cyrillic
  message texts of the source are given by their code points.
\<close>

type_synonym pystr = "nat list"

definition str :: "string \<Rightarrow> pystr" where
  "str s = map of_char s"

text \<open>The code points on which \<open>str.isspace\<close> holds: the characters \<open>str.strip()\<close> removes.\<close>

definition isspace :: "nat \<Rightarrow> bool" where
  "isspace c \<longleftrightarrow> c \<in> set [9, 10, 11, 12, 13, 28, 29, 30, 31, 32, 133, 160, 5760,
     8192, 8193, 8194, 8195, 8196, 8197, 8198, 8199, 8200, 8201, 8202,
     8232, 8233, 8239, 8287, 12288]"

text \<open>\<open>text.strip()\<close>: leading and trailing whitespace removed.\<close>

definition strip :: "pystr \<Rightarrow> pystr" where
  "strip text = rev (dropWhile isspace (rev (dropWhile isspace text)))"

text \<open>\<open>text.startswith(p)\<close> and \<open>text.endswith(p)\<close>.\<close>

definition startswith :: "pystr \<Rightarrow> pystr \<Rightarrow> bool" where
  "startswith text p \<longleftrightarrow> take (length p) text = p"

definition endswith :: "pystr \<Rightarrow> pystr \<Rightarrow> bool" where
  "endswith text p \<longleftrightarrow> length p \<le> length text \<and> drop (length text - length p) text = p"

text \<open>
  \<open>text.find(c)\<close> and \<open>text.rfind(c)\<close> for a one-character \<open>c\<close>: the index of the first
  (last) occurrence, or \<open>-1\<close> when there is none.
\<close>

primrec str_find :: "pystr \<Rightarrow> nat \<Rightarrow> int" where
  "str_find [] c = - 1"
| "str_find (x # xs) c =
     (if x = c then 0
      else (let r = str_find xs c in if r = - 1 then - 1 else r + 1))"

primrec str_rfind :: "pystr \<Rightarrow> nat \<Rightarrow> int" where
  "str_rfind [] c = - 1"
| "str_rfind (x # xs) c =
     (let r = str_rfind xs c in
      if r \<noteq> - 1 then r + 1 else if x = c then 0 else - 1)"

text \<open>The slice \<open>text[i:j]\<close> for indices \<open>0 \<le> i\<close> and \<open>0 \<le> j\<close> (the only use in the source).\<close>

definition slice :: "pystr \<Rightarrow> int \<Rightarrow> int \<Rightarrow> pystr" where
  "slice text i j = drop (nat i) (take (nat j) text)"

text \<open>\<open>str(n)\<close> for a Python integer: its decimal digits, with a minus sign when negative.\<close>

fun str_nat :: "nat \<Rightarrow> pystr" where
  "str_nat n = (if n < 10 then [48 + n] else str_nat (n div 10) @ [48 + n mod 10])"

declare str_nat.simps [simp del]

definition str_int :: "int \<Rightarrow> pystr" where
  "str_int i = (if i < 0 then 45 # str_nat (nat (- i)) else str_nat (nat i))"


section \<open>Decoded JSON values\<close>

text \<open>
  What \<open>json.loads\<close> returns: \<open>None\<close>, a \<open>bool\<close>, an \<open>int\<close>, a \<open>float\<close> (kept by its
  literal: the code only ever tests its type), a \<open>str\<close>, a \<open>list\<close> or a \<open>dict\<close> with
  string keys (an association list in insertion order, looked up with \<open>map_of\<close>).
\<close>

datatype pyval =
    PyNone
  | PyBool bool
  | PyInt int
  | PyFloat pystr
  | PyStr pystr
  | PyList "pyval list"
  | PyDict "(pystr \<times> pyval) list"

text \<open>The exceptions the code raises, catches or lets through, each with its message.\<close>

datatype error =
    JSONDecodeError pystr
  | ValueError pystr
  | TypeError
  | KeyError pystr
  | ConnectionError pystr
  | RecursionError pystr
  | TransportError pystr

text \<open>\<open>isinstance(x, str)\<close>\<close>

fun is_str :: "pyval \<Rightarrow> bool" where
  "is_str (PyStr s) = True"
| "is_str v = False"

text \<open>
  \<open>field in response_data\<close>: key membership for a dict, element membership for a list,
  substring test for a str, and a \<open>TypeError\<close> for a value that is not a container.
\<close>

fun py_in :: "pystr \<Rightarrow> pyval \<Rightarrow> error + bool" where
  "py_in field (PyDict d) = Inr (field \<in> set (map fst d))"
| "py_in field (PyList xs) = Inr (PyStr field \<in> set xs)"
| "py_in field (PyStr s) = Inr (sublist field s)"
| "py_in field v = Inl TypeError"

text \<open>
  \<open>all(field in response_data for field in fields)\<close>: the generator is consumed from the
  left and stops at the first false test; a raising test raises.
\<close>

fun all_in :: "pystr list \<Rightarrow> pyval \<Rightarrow> error + bool" where
  "all_in [] v = Inr True"
| "all_in (field # fields) v =
     (case py_in field v of
        Inl e \<Rightarrow> Inl e
      | Inr b \<Rightarrow> if b then all_in fields v else Inr False)"

text \<open>
  \<open>response_data[key]\<close> with a string key: the dict's entry (\<open>KeyError\<close> when absent); a
  \<open>TypeError\<close> on every other value (lists and strings take integer indices).
\<close>

fun getitem :: "pyval \<Rightarrow> pystr \<Rightarrow> error + pyval" where
  "getitem (PyDict d) key =
     (case map_of d key of Some v \<Rightarrow> Inr v | None \<Rightarrow> Inl (KeyError key))"
| "getitem v key = Inl TypeError"


section \<open>The validator and the cleaner of \<open>gigachat_json_api.py\<close>\<close>

definition required_fields :: "pystr list" where
  "required_fields = [str ''answer'', str ''key_points'', str ''sentiment'']"

definition valid_sentiments :: "pyval list" where
  "valid_sentiments = [PyStr (str ''neutral''), PyStr (str ''positive''), PyStr (str ''negative'')]"

text \<open>\<open>validate_json_response\<close>, lines 72 to 103.\<close>

definition validate_json_response :: "pyval \<Rightarrow> error + bool" where
  "validate_json_response response_data =
     (case all_in required_fields response_data of
        Inl e \<Rightarrow> Inl e
      | Inr present \<Rightarrow>
          if \<not> present then Inr False
          else
            (case getitem response_data (str ''answer'') of
               Inl e \<Rightarrow> Inl e
             | Inr answer \<Rightarrow>
                 if \<not> is_str answer then Inr False
                 else
                   (case getitem response_data (str ''key_points'') of
                      Inl e \<Rightarrow> Inl e
                    | Inr (PyList points) \<Rightarrow>
                        if \<not> list_all is_str points then Inr False
                        else
                          (case getitem response_data (str ''sentiment'') of
                             Inl e \<Rightarrow> Inl e
                           | Inr sentiment \<Rightarrow>
                               if sentiment \<notin> set valid_sentiments then Inr False
                               else Inr True)
                    | Inr other \<Rightarrow> Inr False)))"

text \<open>
  \<open>clean_json_response\<close>, lines 106 to 138, in two steps: \<open>strip_fences\<close> is lines 117 to
  128 (trim, drop an opening and a closing fence marker, trim again), the rest is the
  slice from the first opening brace to the last closing brace.
\<close>

definition strip_fences :: "pystr \<Rightarrow> pystr" where
  "strip_fences text0 =
     (let text1 = strip text0;
          text2 = (if startswith text1 (str ''```json'') then drop 7 text1
                   else if startswith text1 (str ''```'') then drop 3 text1
                   else text1);
          text3 = (if endswith text2 (str ''```'') then take (length text2 - 3) text2
                   else text2)
      in strip text3)"

definition clean_json_response :: "pystr \<Rightarrow> pystr" where
  "clean_json_response text0 =
     (let text = strip_fences text0;
          start_idx = str_find text 123;
          end_idx = str_rfind text 125
      in if start_idx \<noteq> - 1 \<and> end_idx \<noteq> - 1 \<and> end_idx > start_idx
         then slice text start_idx (end_idx + 1)
         else text)"


section \<open>The copies in \<open>chatbot_gui.py\<close>\<close>

text \<open>\<open>validate_json_response\<close> of \<open>chatbot_gui.py\<close>, lines 50 to 70.\<close>

definition gui_validate_json_response :: "pyval \<Rightarrow> error + bool" where
  "gui_validate_json_response response_data =
     (case all_in [str ''answer'', str ''key_points'', str ''sentiment''] response_data of
        Inl e \<Rightarrow> Inl e
      | Inr present \<Rightarrow>
          if \<not> present then Inr False
          else
            (case getitem response_data (str ''answer'') of
               Inl e \<Rightarrow> Inl e
             | Inr answer \<Rightarrow>
                 if \<not> is_str answer then Inr False
                 else
                   (case getitem response_data (str ''key_points'') of
                      Inl e \<Rightarrow> Inl e
                    | Inr (PyList points) \<Rightarrow>
                        if \<not> list_all is_str points then Inr False
                        else
                          (case getitem response_data (str ''sentiment'') of
                             Inl e \<Rightarrow> Inl e
                           | Inr sentiment \<Rightarrow>
                               if sentiment \<notin> set [PyStr (str ''neutral''),
                                    PyStr (str ''positive''), PyStr (str ''negative'')]
                               then Inr False
                               else Inr True)
                    | Inr other \<Rightarrow> Inr False)))"

text \<open>\<open>clean_json_response\<close> of \<open>chatbot_gui.py\<close>, lines 73 to 93.\<close>

definition gui_clean_json_response :: "pystr \<Rightarrow> pystr" where
  "gui_clean_json_response text0 =
     (let text1 = strip text0;
          text2 = (if startswith text1 (str ''```json'') then drop 7 text1
                   else if startswith text1 (str ''```'') then drop 3 text1
                   else text1);
          text3 = (if endswith text2 (str ''```'') then take (length text2 - 3) text2
                   else text2);
          text = strip text3;
          start_idx = str_find text 123;
          end_idx = str_rfind text 125
      in if start_idx \<noteq> - 1 \<and> end_idx \<noteq> - 1 \<and> end_idx > start_idx
         then slice text start_idx (end_idx + 1)
         else text)"

section \<open>Messages of the errors\<close>

text \<open>The message of the \<open>ValueError\<close> raised when validation fails (line 194; line 137 of
  \<open>chatbot_gui.py\<close>).\<close>

definition struct_msg :: pystr where
  "struct_msg = [1057, 1090, 1088, 1091, 1082, 1090, 1091, 1088, 1072, 32, 74, 83, 79, 78, 32,
     1085, 1077, 32, 1089, 1086, 1086, 1090, 1074, 1077, 1090, 1089, 1090, 1074, 1091, 1077,
     1090, 32, 1090, 1088, 1077, 1073, 1086, 1074, 1072, 1085, 1080, 1103, 1084]"

text \<open>The f-string of lines 209 to 211: a fixed head, \<open>max_retries\<close>, the first 200 characters
  of the response, and the decoder's error.\<close>

definition parse_failed_msg :: "int \<Rightarrow> pystr \<Rightarrow> pystr \<Rightarrow> pystr" where
  "parse_failed_msg max_retries shown e =
     [1053, 1077, 32, 1091, 1076, 1072, 1083, 1086, 1089, 1100, 32, 1088, 1072, 1089, 1087,
      1072, 1088, 1089, 1080, 1090, 1100, 32, 74, 83, 79, 78, 32, 1087, 1086, 1089, 1083,
      1077, 32]
     @ str_int max_retries
     @ [32, 1087, 1086, 1087, 1099, 1090, 1086, 1082, 46, 32]
     @ [1054, 1090, 1074, 1077, 1090, 32, 1086, 1090, 32, 65, 80, 73, 58, 32]
     @ shown
     @ [46, 46, 46, 32]
     @ [1054, 1096, 1080, 1073, 1082, 1072, 32, 1087, 1072, 1088, 1089, 1080, 1085, 1075,
        1072, 58, 32]
     @ e"

text \<open>The f-string of lines 226 and 227: a fixed head, \<open>max_retries\<close> and the caught
  error.\<close>

definition validation_failed_msg :: "int \<Rightarrow> pystr \<Rightarrow> pystr" where
  "validation_failed_msg max_retries e =
     [1053, 1077, 32, 1091, 1076, 1072, 1083, 1086, 1089, 1100, 32, 1087, 1086, 1083, 1091,
      1095, 1080, 1090, 1100, 32, 1074, 1072, 1083, 1080, 1076, 1085, 1099, 1081, 32, 74, 83,
      79, 78, 32, 1087, 1086, 1089, 1083, 1077, 32]
     @ str_int max_retries
     @ [32, 1087, 1086, 1087, 1099, 1090, 1086, 1082, 46, 32]
     @ [1054, 1096, 1080, 1073, 1082, 1072, 32, 1074, 1072, 1083, 1080, 1076, 1072, 1094,
        1080, 1080, 58, 32]
     @ e"

text \<open>The message of line 231, after the loop.\<close>

definition no_valid_answer_msg :: pystr where
  "no_valid_answer_msg = [1053, 1077, 32, 1091, 1076, 1072, 1083, 1086, 1089, 1100, 32, 1087,
     1086, 1083, 1091, 1095, 1080, 1090, 1100, 32, 1074, 1072, 1083, 1080, 1076, 1085, 1099,
     1081, 32, 1086, 1090, 1074, 1077, 1090]"

text \<open>The message of line 167, for a client that is \<open>None\<close>.\<close>

definition client_init_msg :: pystr where
  "client_init_msg = [1053, 1077, 32, 1091, 1076, 1072, 1083, 1086, 1089, 1100, 32, 1080, 1085,
     1080, 1094, 1080, 1072, 1083, 1080, 1079, 1080, 1088, 1086, 1074, 1072, 1090, 1100, 32,
     1082, 1083, 1080, 1077, 1085, 1090, 32, 71, 105, 103, 97, 67, 104, 97, 116]"

text \<open>The texts of \<open>chatbot_gui.py\<close>: the marker tested in line 155, the placeholder of
  line 151, and the messages of lines 166 and 109.\<close>

definition structure_marker :: pystr where
  "structure_marker = [1057, 1090, 1088, 1091, 1082, 1090, 1091, 1088, 1072, 32, 74, 83, 79, 78]"

definition no_answer :: pystr where
  "no_answer = [1053, 1077, 1090, 32, 1086, 1090, 1074, 1077, 1090, 1072]"

definition gui_no_valid_answer_msg :: pystr where
  "gui_no_valid_answer_msg = [1053, 1077, 32, 1091, 1076, 1072, 1083, 1086, 1089, 1100, 32,
     1087, 1086, 1083, 1091, 1095, 1080, 1090, 1100, 32, 1074, 1072, 1083, 1080, 1076, 1085,
     1099, 1081, 32, 1086, 1090, 1074, 1077, 1090, 32, 1087, 1086, 1089, 1083, 1077, 32, 1074,
     1089, 1077, 1093, 32, 1087, 1086, 1087, 1099, 1090, 1086, 1082]"

definition gui_client_msg :: pystr where
  "gui_client_msg = [1050, 1083, 1080, 1077, 1085, 1090, 32, 71, 105, 103, 97, 67, 104, 97, 116,
     32, 1085, 1077, 32, 1080, 1085, 1080, 1094, 1080, 1072, 1083, 1080, 1079, 1080, 1088,
     1086, 1074, 1072, 1085]"


section \<open>The completion provider\<close>

text \<open>
  The system instruction of a chat: the base prompt, or the base prompt with one of the
  two corrective directives appended. The user message never changes.
\<close>

datatype prompt = System_prompt | Retry_not_json | Retry_wrong_structure

text \<open>
  One call \<open>client.chat(chat)\<close> followed by \<open>response.choices[0].message.content\<close>
  returns a text or raises. A client is given by what its calls do, by the number of
  calls made before and the instruction sent; a scripted client ignores the instruction.
\<close>

datatype outcome = Reply pystr | Raise error

type_synonym client = "nat \<Rightarrow> prompt \<Rightarrow> outcome"

definition scripted :: "(nat \<Rightarrow> outcome) \<Rightarrow> client" where
  "scripted s = (\<lambda>calls chat. s calls)"

text \<open>
  \<open>json.loads\<close> is a parameter \<open>loads\<close>: on a text it returns the decoded value, or
  raises an exception: \<open>JSONDecodeError\<close> on a malformed text, a plain \<open>ValueError\<close> on an
  integer literal with too many digits, \<open>RecursionError\<close> on too deep a nesting.
\<close>

type_synonym decoder = "pystr \<Rightarrow> error + pyval"


section \<open>\<open>send_json_request\<close> of \<open>gigachat_json_api.py\<close>\<close>

text \<open>The body of the \<open>try\<close> (lines 185 to 194): what it returns, or the exception
  it raises.\<close>

definition try_body :: "decoder \<Rightarrow> pystr \<Rightarrow> error + pyval" where
  "try_body loads response_text =
     (let cleaned_text = clean_json_response response_text in
      case loads cleaned_text of
        Inl err \<Rightarrow> Inl err
      | Inr json_data \<Rightarrow>
          (case validate_json_response json_data of
             Inl err \<Rightarrow> Inl err
           | Inr ok \<Rightarrow> if ok then Inr json_data else Inl (ValueError struct_msg)))"

text \<open>
  The loop of lines 182 to 231, from iteration \<open>attempt\<close> on. \<open>calls\<close> counts the
  provider calls made so far; the result is what the function returns or raises,
  with the final count.
\<close>

function api_attempts ::
  "decoder \<Rightarrow> client \<Rightarrow> int \<Rightarrow> nat \<Rightarrow> nat \<Rightarrow> pystr \<Rightarrow> (error + pyval) \<times> nat" where
  "api_attempts loads client max_retries attempt calls response_text =
     (if int attempt < max_retries then
        (case try_body loads response_text of
           Inr json_data \<Rightarrow> (Inr json_data, calls)
         | Inl (JSONDecodeError e) \<Rightarrow>
             if int attempt < max_retries - 1 then
               (case client calls Retry_not_json of
                  Raise err \<Rightarrow> (Inl err, calls + 1)
                | Reply t \<Rightarrow> api_attempts loads client max_retries (attempt + 1) (calls + 1) t)
             else (Inl (ValueError (parse_failed_msg max_retries (take 200 response_text) e)), calls)
         | Inl (ValueError e) \<Rightarrow>
             if int attempt < max_retries - 1 then
               (case client calls Retry_wrong_structure of
                  Raise err \<Rightarrow> (Inl err, calls + 1)
                | Reply t \<Rightarrow> api_attempts loads client max_retries (attempt + 1) (calls + 1) t)
             else (Inl (ValueError (validation_failed_msg max_retries e)), calls)
         | Inl err \<Rightarrow> (Inl err, calls))
      else (Inl (ValueError no_valid_answer_msg), calls))"
  by pat_completeness auto

termination
  by (relation "measure (\<lambda>(loads, client, max_retries, attempt, calls, response_text).
        nat (max_retries - int attempt))") auto

declare api_attempts.simps [simp del]

text \<open>
  \<open>send_json_request\<close>, lines 141 to 241. \<open>get_gigachat_client\<close> is given by its outcome:
  an exception, or the client (\<open>None\<close> is refused in line 166). The first request is sent
  before the loop.
\<close>

definition send_json_request ::
  "error + client option \<Rightarrow> decoder \<Rightarrow> int \<Rightarrow> (error + pyval) \<times> nat" where
  "send_json_request get_gigachat_client loads max_retries =
     (case get_gigachat_client of
        Inl err \<Rightarrow> (Inl err, 0)
      | Inr None \<Rightarrow> (Inl (ConnectionError client_init_msg), 0)
      | Inr (Some client) \<Rightarrow>
          (case client 0 System_prompt of
             Raise err \<Rightarrow> (Inl err, 1)
           | Reply response_text \<Rightarrow> api_attempts loads client max_retries 0 1 response_text))"


section \<open>\<open>send_json_request\<close> of \<open>chatbot_gui.py\<close>\<close>

text \<open>
  The loop of lines 121 to 166, from iteration \<open>attempt\<close> on. Here the request is sent
  inside the \<open>try\<close>, with the chat left by the previous iteration, and
  \<open>response_text\<close> starts as \<open>None\<close>.
\<close>

function gui_attempts ::
  "decoder \<Rightarrow> client \<Rightarrow> int \<Rightarrow> nat \<Rightarrow> nat \<Rightarrow> prompt \<Rightarrow> pystr option \<Rightarrow> (error + pyval) \<times> nat" where
  "gui_attempts loads client max_retries attempt calls chat response_text =
     (if int attempt < max_retries then
        (let (tried, response_text') =
               (case client calls chat of
                  Raise err \<Rightarrow> (Inl err, response_text)
                | Reply t \<Rightarrow> (try_body loads t, Some t))
         in case tried of
              Inr json_data \<Rightarrow> (Inr json_data, calls + 1)
            | Inl (JSONDecodeError e) \<Rightarrow>
                if int attempt < max_retries - 1 then
                  gui_attempts loads client max_retries (attempt + 1) (calls + 1)
                    Retry_not_json response_text'
                else
                  (Inl (ValueError (parse_failed_msg max_retries
                     (case response_text' of
                        None \<Rightarrow> no_answer
                      | Some t \<Rightarrow> if t \<noteq> [] then take 200 t else no_answer) e)), calls + 1)
            | Inl (ValueError e) \<Rightarrow>
                if sublist structure_marker e \<and> int attempt < max_retries - 1 then
                  gui_attempts loads client max_retries (attempt + 1) (calls + 1)
                    Retry_wrong_structure response_text'
                else (Inl (ValueError e), calls + 1)
            | Inl err \<Rightarrow> (Inl err, calls + 1))
      else (Inl (ValueError gui_no_valid_answer_msg), calls))"
  by pat_completeness auto

termination
  by (relation "measure (\<lambda>(loads, client, max_retries, attempt, calls, chat, response_text).
        nat (max_retries - int attempt))") auto

declare gui_attempts.simps [simp del]

definition gui_send_json_request ::
  "client option \<Rightarrow> decoder \<Rightarrow> int \<Rightarrow> (error + pyval) \<times> nat" where
  "gui_send_json_request client loads max_retries =
     (case client of
        None \<Rightarrow> (Inl (ConnectionError gui_client_msg), 0)
      | Some c \<Rightarrow> gui_attempts loads c max_retries 0 0 System_prompt None)"


section \<open>Auxiliary notions\<close>

text \<open>A text with no whitespace at either end.\<close>

definition trimmed :: "pystr \<Rightarrow> bool" where
  "trimmed s \<longleftrightarrow> s = [] \<or> (\<not> isspace (hd s) \<and> \<not> isspace (last s))"

text \<open>
  An exception that is neither a JSON decode failure nor a \<open>ValueError\<close>: the
  shape of a transport-level failure of the provider. A response is rejected when the loop
  catches what the \<open>try\<close> body raises on it (a \<open>JSONDecodeError\<close> or a \<open>ValueError\<close> of
  the decoder, or the validator's \<open>False\<close>); the loop of \<open>chatbot_gui.py\<close> retries a
  \<open>ValueError\<close> only when its text holds the marker of line 155.
\<close>

fun is_transport :: "error \<Rightarrow> bool" where
  "is_transport (JSONDecodeError e) = False"
| "is_transport (ValueError e) = False"
| "is_transport err = True"

definition rejected :: "decoder \<Rightarrow> pystr \<Rightarrow> bool" where
  "rejected loads t \<longleftrightarrow>
     (case loads (clean_json_response t) of
        Inl (JSONDecodeError e) \<Rightarrow> True
      | Inl (ValueError e) \<Rightarrow> True
      | Inl err \<Rightarrow> False
      | Inr v \<Rightarrow> validate_json_response v = Inr False)"

definition gui_rejected :: "decoder \<Rightarrow> pystr \<Rightarrow> bool" where
  "gui_rejected loads t \<longleftrightarrow>
     (case loads (clean_json_response t) of
        Inl (JSONDecodeError e) \<Rightarrow> True
      | Inl (ValueError e) \<Rightarrow> sublist structure_marker e
      | Inl err \<Rightarrow> False
      | Inr v \<Rightarrow> validate_json_response v = Inr False)"

definition accepted :: "decoder \<Rightarrow> pystr \<Rightarrow> pyval \<Rightarrow> bool" where
  "accepted loads t v \<longleftrightarrow>
     loads (clean_json_response t) = Inr v \<and> validate_json_response v = Inr True"

definition exhausted_msg :: "decoder \<Rightarrow> int \<Rightarrow> pystr \<Rightarrow> pystr" where
  "exhausted_msg loads max_retries t =
     (case loads (clean_json_response t) of
        Inl (JSONDecodeError e) \<Rightarrow> parse_failed_msg max_retries (take 200 t) e
      | Inl (ValueError e) \<Rightarrow> validation_failed_msg max_retries e
      | Inl err \<Rightarrow> []
      | Inr v \<Rightarrow> validation_failed_msg max_retries struct_msg)"

fun reply_text :: "outcome \<Rightarrow> pystr" where
  "reply_text (Reply t) = t"
| "reply_text (Raise err) = []"

text \<open>
  Sample texts with what \<open>json.loads\<close> does on them, for the closed examples;
  \<open>loads_sample\<close> stands for \<open>json.loads\<close> on these texts only.
\<close>

definition text_valid :: pystr where
  "text_valid = str ''{\"answer\":\"x\",\"key_points\":[\"a\",\"b\",\"c\"],\"sentiment\":\"neutral\"}''"

definition value_valid :: pyval where
  "value_valid = PyDict [(str ''answer'', PyStr (str ''x'')),
     (str ''key_points'', PyList [PyStr (str ''a''), PyStr (str ''b''), PyStr (str ''c'')]),
     (str ''sentiment'', PyStr (str ''neutral''))]"

definition text_maybe :: pystr where
  "text_maybe = str ''{\"answer\":\"x\",\"key_points\":[\"a\"],\"sentiment\":\"maybe\"}''"

definition value_maybe :: pyval where
  "value_maybe = PyDict [(str ''answer'', PyStr (str ''x'')),
     (str ''key_points'', PyList [PyStr (str ''a'')]),
     (str ''sentiment'', PyStr (str ''maybe''))]"

definition text_prose :: pystr where
  "text_prose = str ''no json here''"

definition text_null :: pystr where
  "text_null = str ''null''"

definition decode_error_sample :: pystr where
  "decode_error_sample = str ''Expecting value: line 1 column 1 (char 0)''"

definition loads_sample :: decoder where
  "loads_sample text =
     (if text = text_valid then Inr value_valid
      else if text = text_maybe then Inr value_maybe
      else if text = text_null then Inr PyNone
      else Inl (JSONDecodeError decode_error_sample))"

section \<open>Searching and slicing\<close>

lemma str_find_notin: "c \<notin> set xs \<Longrightarrow> str_find xs c = - 1"
  by (induction xs) (auto simp: Let_def)

lemma str_find_first: "c \<notin> set pre \<Longrightarrow> str_find (pre @ c # rest) c = int (length pre)"
  by (induction pre) (auto simp: Let_def)

lemma str_rfind_notin: "c \<notin> set xs \<Longrightarrow> str_rfind xs c = - 1"
  by (induction xs) (auto simp: Let_def)

lemma str_rfind_last: "c \<notin> set post \<Longrightarrow> str_rfind (pre @ c # post) c = int (length pre)"
  by (induction pre) (auto simp: Let_def str_rfind_notin)

lemma str_find_index:
  "str_find xs c \<noteq> - 1 \<Longrightarrow>
     0 \<le> str_find xs c \<and> nat (str_find xs c) < length xs \<and> xs ! nat (str_find xs c) = c"
proof (induction xs)
  case Nil
  then show ?case by simp
next
  case (Cons x xs)
  show ?case
  proof (cases "x = c")
    case True
    then show ?thesis by simp
  next
    case False
    with Cons.prems have ne: "str_find xs c \<noteq> - 1" by (auto simp: Let_def split: if_splits)
    from Cons.IH [OF ne] False ne show ?thesis by (auto simp: Let_def nat_add_distrib)
  qed
qed

lemma str_rfind_index:
  "str_rfind xs c \<noteq> - 1 \<Longrightarrow>
     0 \<le> str_rfind xs c \<and> nat (str_rfind xs c) < length xs \<and> xs ! nat (str_rfind xs c) = c"
proof (induction xs)
  case Nil
  then show ?case by simp
next
  case (Cons x xs)
  show ?case
  proof (cases "str_rfind xs c = - 1")
    case True
    with Cons.prems show ?thesis by (auto simp: Let_def split: if_splits)
  next
    case False
    from Cons.IH [OF False] False show ?thesis by (auto simp: Let_def nat_add_distrib)
  qed
qed

text \<open>
  Claim C5: when the fence-stripped, trimmed text has a first \<open>{\<close> strictly before its
  last \<open>}\<close>, \<open>clean_json_response\<close> returns exactly the text from that \<open>{\<close> through
  that \<open>}\<close>.
\<close>
theorem clean_slices_outermost_braces:
  assumes "strip_fences x = pre @ 123 # mid @ 125 # post"
    and "123 \<notin> set pre" and "125 \<notin> set post"
  shows "clean_json_response x = 123 # mid @ [125]"
proof -
  let ?t = "strip_fences x"
  have s: "str_find ?t 123 = int (length pre)"
    using assms(1,2) by (simp add: str_find_first)
  have "?t = (pre @ 123 # mid) @ 125 # post" using assms(1) by simp
  then have e: "str_rfind ?t 125 = int (length (pre @ 123 # mid))"
    using assms(3) str_rfind_last by metis
  have "slice ?t (int (length pre)) (int (length (pre @ 123 # mid)) + 1) = 123 # mid @ [125]"
    using assms(1) by (simp add: slice_def nat_add_distrib)
  with s e show ?thesis by (simp add: clean_json_response_def Let_def)
qed

section \<open>Trimming\<close>

lemma dropWhile_hd: "dropWhile P xs = [] \<or> \<not> P (hd (dropWhile P xs))"
  by (induction xs) auto

lemma strip_split:
  "dropWhile isspace s = strip s @ rev (takeWhile isspace (rev (dropWhile isspace s)))"
proof -
  let ?u = "dropWhile isspace s"
  have "?u = rev (takeWhile isspace (rev ?u) @ dropWhile isspace (rev ?u))"
    by (simp only: takeWhile_dropWhile_id rev_rev_ident)
  also have "\<dots> = strip s @ rev (takeWhile isspace (rev ?u))"
    by (simp only: rev_append strip_def)
  finally show ?thesis .
qed

lemma strip_trimmed: "trimmed (strip s)"
proof (cases "strip s = []")
  case True
  then show ?thesis by (simp add: trimmed_def)
next
  case False
  let ?u = "dropWhile isspace s"
  have u: "?u \<noteq> []"
  proof
    assume "?u = []"
    then have "strip s = []" unfolding strip_def by (simp del: dropWhile_eq_Nil_conv)
    with False show False ..
  qed
  have "hd (strip s) = hd ?u" using strip_split [of s] False by (metis hd_append2)
  moreover have "\<not> isspace (hd ?u)" using dropWhile_hd [of isspace s] u by auto
  moreover have "last (strip s) = hd (dropWhile isspace (rev ?u))"
    using False by (simp add: strip_def last_rev)
  moreover have "\<not> isspace (hd (dropWhile isspace (rev ?u)))"
    using dropWhile_hd [of isspace "rev ?u"] False by (auto simp: strip_def)
  ultimately show ?thesis by (simp add: trimmed_def)
qed

lemma trimmed_strip: "trimmed s \<Longrightarrow> strip s = s"
proof (cases "s = []")
  case True
  then show ?thesis by (simp add: strip_def)
next
  case False
  assume "trimmed s"
  with False have h: "\<not> isspace (hd s)" and l: "\<not> isspace (last s)"
    by (auto simp: trimmed_def)
  from False h have 1: "dropWhile isspace s = s" by (cases s) auto
  from False l have 2: "dropWhile isspace (rev s) = rev s"
    by (cases "rev s") (auto simp: last_rev [symmetric] hd_rev)
  show ?thesis by (simp add: strip_def 1 2)
qed

lemma length_strip: "length (strip s) \<le> length s"
proof -
  have "length (strip s) \<le> length (dropWhile isspace s)"
    using length_dropWhile_le [of isspace "rev (dropWhile isspace s)"] by (simp add: strip_def)
  also have "\<dots> \<le> length s" by (rule length_dropWhile_le)
  finally show ?thesis .
qed

section \<open>The cleaner\<close>

lemma fence_eq: "str ''```'' = [96, 96, 96]" "str ''```json'' = [96, 96, 96, 106, 115, 111, 110]"
  by (simp_all add: str_def)

lemma startswith_fence: "startswith t (str ''```'') \<longleftrightarrow> take 3 t = [96, 96, 96]"
proof -
  have "length (str ''```'') = 3" by (simp add: str_def)
  then show ?thesis unfolding startswith_def by (simp only: fence_eq)
qed

lemma startswith_json: "startswith t (str ''```json'') \<longleftrightarrow> take 7 t = [96, 96, 96, 106, 115, 111, 110]"
proof -
  have "length (str ''```json'') = 7" by (simp add: str_def)
  then show ?thesis unfolding startswith_def by (simp only: fence_eq)
qed

lemma endswith_fence:
  "endswith t (str ''```'') \<longleftrightarrow> 3 \<le> length t \<and> drop (length t - 3) t = [96, 96, 96]"
proof -
  have "length (str ''```'') = 3" by (simp add: str_def)
  then show ?thesis unfolding endswith_def by (simp only: fence_eq)
qed

lemma not_space_braces: "\<not> isspace 123" "\<not> isspace 125"
  by (simp_all add: isspace_def)

lemma startswith_json_fence: "startswith t (str ''```json'') \<Longrightarrow> startswith t (str ''```'')"
proof -
  assume "startswith t (str ''```json'')"
  then have "take 7 t = [96, 96, 96, 106, 115, 111, 110]" by (simp only: startswith_json)
  then have "take 3 (take 7 t) = [96, 96, 96]" by simp
  then show ?thesis by (simp add: startswith_fence)
qed

lemma startswith_length: "startswith t (str ''```'') \<Longrightarrow> 3 \<le> length t"
proof -
  assume "startswith t (str ''```'')"
  then have "length (take 3 t) = 3" by (simp only: startswith_fence) simp
  then show ?thesis by simp
qed

text \<open>Without fence markers at either end, a trimmed text is left alone.\<close>

lemma strip_fences_id:
  assumes "trimmed y" "\<not> startswith y (str ''```'')" "\<not> endswith y (str ''```'')"
  shows "strip_fences y = y"
proof -
  have "\<not> startswith y (str ''```json'')" using assms(2) startswith_json_fence by blast
  with assms show ?thesis by (simp add: strip_fences_def trimmed_strip Let_def)
qed

text \<open>With a fence marker at either end, at least three characters go.\<close>

lemma strip_fences_shorter:
  assumes "trimmed y" "startswith y (str ''```'') \<or> endswith y (str ''```'')"
  shows "length (strip_fences y) < length y"
proof -
  define t2 where "t2 = (if startswith y (str ''```json'') then drop 7 y
                   else if startswith y (str ''```'') then drop 3 y else y)"
  define t3 where "t3 = (if endswith t2 (str ''```'') then take (length t2 - 3) t2 else t2)"
  have sf: "strip_fences y = strip t3"
    using assms(1) by (simp add: strip_fences_def trimmed_strip Let_def t2_def t3_def)
  have l2: "length t2 \<le> length y" by (simp add: t2_def)
  have l3: "length t3 \<le> length t2" by (simp add: t3_def)
  have "length t3 < length y"
  proof (cases "startswith y (str ''```'')")
    case True
    then have "3 \<le> length y" by (rule startswith_length)
    with True have "length t2 < length y" by (auto simp: t2_def)
    with l3 show ?thesis by simp
  next
    case False
    then have nj: "\<not> startswith y (str ''```json'')" using startswith_json_fence by blast
    from False nj have t2: "t2 = y" by (simp add: t2_def)
    from False assms(2) have e: "endswith y (str ''```'')" by simp
    then have "3 \<le> length y" by (simp add: endswith_fence)
    with e t2 show ?thesis by (simp add: t3_def)
  qed
  with length_strip [of t3] sf show ?thesis by simp
qed

lemma length_slice: "length (slice t i j) \<le> length t"
  by (simp add: slice_def)

lemma length_clean_le: "length (clean_json_response y) \<le> length (strip_fences y)"
  by (simp add: clean_json_response_def Let_def length_slice)

text \<open>The two shapes of a cleaned text.\<close>

lemma clean_cases:
  "(\<exists>mid. clean_json_response x = 123 # mid @ [125]) \<or>
   (clean_json_response x = strip_fences x \<and>
     \<not> (str_find (strip_fences x) 123 \<noteq> - 1 \<and> str_rfind (strip_fences x) 125 \<noteq> - 1 \<and>
        str_rfind (strip_fences x) 125 > str_find (strip_fences x) 123))"
proof (cases "str_find (strip_fences x) 123 \<noteq> - 1 \<and> str_rfind (strip_fences x) 125 \<noteq> - 1 \<and>
        str_rfind (strip_fences x) 125 > str_find (strip_fences x) 123")
  case False
  then show ?thesis by (simp only: clean_json_response_def Let_def if_False simp_thms)
next
  case True
  let ?t = "strip_fences x"
  define i where "i = nat (str_find ?t 123)"
  define j where "j = nat (str_rfind ?t 125)"
  from True str_find_index [of ?t 123] have i: "str_find ?t 123 = int i" "i < length ?t" "?t ! i = 123"
    by (simp_all add: i_def)
  from True str_rfind_index [of ?t 125] have j: "str_rfind ?t 125 = int j" "j < length ?t" "?t ! j = 125"
    by (simp_all add: j_def)
  from True i(1) j(1) have ij: "i < j" by simp
  let ?s = "drop i (take (Suc j) ?t)"
  have c: "clean_json_response x = ?s"
    using True i(1) j(1) by (simp add: clean_json_response_def Let_def slice_def nat_add_distrib)
  have len: "length ?s = Suc j - i" using j(2) by simp
  have h: "?s ! 0 = 123" using ij j(2) i(3) by simp
  have l: "?s ! (j - i) = 125" using ij j(2) j(3) by simp
  from len ij obtain a r where s: "?s = a # r" by (cases ?s) auto
  with h have a: "a = 123" by simp
  from s len ij have "r \<noteq> []" by auto
  then obtain mid b where r: "r = mid @ [b]" by (metis rev_exhaust)
  from s r len have "length mid = j - i - 1" by simp
  with l s r ij have "b = 125" by (simp add: nth_append nth_Cons')
  with c s a r show ?thesis by auto
qed

lemma clean_trimmed: "trimmed (clean_json_response x)"
  using clean_cases [of x]
proof
  assume "\<exists>mid. clean_json_response x = 123 # mid @ [125]"
  then show ?thesis by (auto simp: trimmed_def not_space_braces)
next
  assume "clean_json_response x = strip_fences x \<and>
     \<not> (str_find (strip_fences x) 123 \<noteq> - 1 \<and> str_rfind (strip_fences x) 125 \<noteq> - 1 \<and>
        str_rfind (strip_fences x) 125 > str_find (strip_fences x) 123)"
  then show ?thesis by (simp add: strip_fences_def Let_def strip_trimmed)
qed

lemma clean_fixed:
  assumes "strip_fences y = y"
    and "(\<exists>mid. y = 123 # mid @ [125]) \<or>
       \<not> (str_find y 123 \<noteq> - 1 \<and> str_rfind y 125 \<noteq> - 1 \<and> str_rfind y 125 > str_find y 123)"
  shows "clean_json_response y = y"
  using assms(2)
proof
  assume "\<exists>mid. y = 123 # mid @ [125]"
  then obtain mid where y: "y = 123 # mid @ [125]" ..
  have f: "str_find y 123 = 0" by (simp add: y)
  have "y = (123 # mid) @ 125 # []" by (simp add: y)
  then have "str_rfind y 125 = int (length (123 # mid))"
    using str_rfind_last [of 125 "[]" "123 # mid"] by simp
  then have r: "str_rfind y 125 = int (length mid) + 1" by simp
  have "slice y 0 (int (length mid) + 1 + 1) = y" by (simp add: slice_def y nat_add_distrib)
  with f r show ?thesis by (simp add: clean_json_response_def Let_def assms(1))
next
  assume "\<not> (str_find y 123 \<noteq> - 1 \<and> str_rfind y 125 \<noteq> - 1 \<and> str_rfind y 125 > str_find y 123)"
  then show ?thesis by (simp only: clean_json_response_def Let_def assms(1) if_False)
qed

text \<open>
  Claim C4, amended: cleaning a cleaned text changes nothing exactly when the cleaned text
  neither starts nor ends with the fence marker \<open>```\<close> (so always when the brace slice
  was taken). Only one layer of fences is removed per call.
\<close>
theorem clean_idempotent_iff:
  "clean_json_response (clean_json_response x) = clean_json_response x \<longleftrightarrow>
     \<not> startswith (clean_json_response x) (str ''```'') \<and>
     \<not> endswith (clean_json_response x) (str ''```'')"
proof
  let ?y = "clean_json_response x"
  assume idem: "clean_json_response ?y = ?y"
  show "\<not> startswith ?y (str ''```'') \<and> \<not> endswith ?y (str ''```'')"
  proof (rule ccontr)
    assume "\<not> (\<not> startswith ?y (str ''```'') \<and> \<not> endswith ?y (str ''```''))"
    then have "startswith ?y (str ''```'') \<or> endswith ?y (str ''```'')" by blast
    then have "length (strip_fences ?y) < length ?y"
      using clean_trimmed strip_fences_shorter by blast
    with length_clean_le [of ?y] idem show False by simp
  qed
next
  let ?y = "clean_json_response x"
  assume nf: "\<not> startswith ?y (str ''```'') \<and> \<not> endswith ?y (str ''```'')"
  then have sf: "strip_fences ?y = ?y" using clean_trimmed strip_fences_id by blast
  from clean_cases [of x]
  have "(\<exists>mid. ?y = 123 # mid @ [125]) \<or>
       \<not> (str_find ?y 123 \<noteq> - 1 \<and> str_rfind ?y 125 \<noteq> - 1 \<and> str_rfind ?y 125 > str_find ?y 123)"
    by auto
  with sf show "clean_json_response ?y = ?y" by (rule clean_fixed)
qed

text \<open>
  Claim C4 as stated (the cleaner is idempotent on every input) fails on a text with two
  opening fences: the first call leaves \<open>``` abc\<close>, the second \<open>abc\<close>.
\<close>
theorem clean_not_idempotent:
  "clean_json_response (clean_json_response (str ''`````` abc'')) \<noteq>
     clean_json_response (str ''`````` abc'')"
  by (simp add: clean_json_response_def strip_fences_def strip_def str_def startswith_def
        endswith_def isspace_def slice_def Let_def)

section \<open>The validator\<close>

lemma str_keys_distinct:
  "str ''answer'' \<noteq> str ''key_points''" "str ''answer'' \<noteq> str ''sentiment''"
  "str ''key_points'' \<noteq> str ''sentiment''"
  by (simp_all add: str_def)

lemma in_keys_iff: "k \<in> fst ` set d \<longleftrightarrow> map_of d k \<noteq> None"
  by (simp add: map_of_eq_None_iff)

lemma is_str_iff: "is_str v \<longleftrightarrow> (\<exists>s. v = PyStr s)"
  by (cases v) auto

text \<open>The verdict on a dict only depends on what the three keys are bound to.\<close>

lemma validate_dict:
  "validate_json_response (PyDict d) =
     Inr (\<exists>a ps s. map_of d (str ''answer'') = Some (PyStr a) \<and>
            map_of d (str ''key_points'') = Some (PyList ps) \<and> list_all is_str ps \<and>
            map_of d (str ''sentiment'') = Some (PyStr s) \<and>
            (s = str ''neutral'' \<or> s = str ''positive'' \<or> s = str ''negative''))"
proof (cases "map_of d (str ''answer'')")
  case None
  then show ?thesis
    by (simp add: validate_json_response_def required_fields_def in_keys_iff)
next
  case a: (Some a)
  show ?thesis
  proof (cases "map_of d (str ''key_points'')")
    case None
    with a show ?thesis
      by (simp add: validate_json_response_def required_fields_def in_keys_iff)
  next
    case k: (Some k)
    show ?thesis
    proof (cases "map_of d (str ''sentiment'')")
      case None
      with a k show ?thesis
        by (simp add: validate_json_response_def required_fields_def in_keys_iff)
    next
      case s: (Some s)
      show ?thesis
      proof (cases "is_str a")
        case False
        with a k s show ?thesis
          by (auto simp: validate_json_response_def required_fields_def in_keys_iff)
      next
        case True
        then obtain a' where "a = PyStr a'" by (auto simp: is_str_iff)
        with a k s show ?thesis
          by (cases k; cases s)
            (auto simp: validate_json_response_def required_fields_def in_keys_iff
               valid_sentiments_def)
      qed
    qed
  qed
qed

text \<open>
  Claim C3: on every decoded mapping \<open>validate_json_response\<close> returns a boolean and never
  raises; it returns true exactly when the three keys are present, \<open>answer\<close> is a
  string, \<open>key_points\<close> is a list of strings and \<open>sentiment\<close> is one of \<open>neutral\<close>,
  \<open>positive\<close>, \<open>negative\<close>. In particular an empty \<open>key_points\<close> list is valid.
\<close>
theorem validate_total_on_mappings:
  "validate_json_response (PyDict d) =
     Inr (str ''answer'' \<in> fst ` set d \<and> str ''key_points'' \<in> fst ` set d \<and>
          str ''sentiment'' \<in> fst ` set d \<and>
          (\<exists>a. map_of d (str ''answer'') = Some (PyStr a)) \<and>
          (\<exists>ps. map_of d (str ''key_points'') = Some (PyList ps) \<and> list_all is_str ps) \<and>
          (\<exists>s. map_of d (str ''sentiment'') = Some (PyStr s) \<and>
             (s = str ''neutral'' \<or> s = str ''positive'' \<or> s = str ''negative''))) \<and>
   validate_json_response (PyDict [(str ''answer'', PyStr a), (str ''key_points'', PyList []),
     (str ''sentiment'', PyStr (str ''neutral''))]) = Inr True"
proof
  have "\<And>k. k \<in> fst ` set d \<longleftrightarrow> map_of d k \<noteq> None"
    by (rule in_keys_iff)
  then show "validate_json_response (PyDict d) =
     Inr (str ''answer'' \<in> fst ` set d \<and> str ''key_points'' \<in> fst ` set d \<and>
          str ''sentiment'' \<in> fst ` set d \<and>
          (\<exists>a. map_of d (str ''answer'') = Some (PyStr a)) \<and>
          (\<exists>ps. map_of d (str ''key_points'') = Some (PyList ps) \<and> list_all is_str ps) \<and>
          (\<exists>s. map_of d (str ''sentiment'') = Some (PyStr s) \<and>
             (s = str ''neutral'' \<or> s = str ''positive'' \<or> s = str ''negative'')))"
    unfolding validate_dict by auto
next
  show "validate_json_response (PyDict [(str ''answer'', PyStr a), (str ''key_points'', PyList []),
     (str ''sentiment'', PyStr (str ''neutral''))]) = Inr True"
    unfolding validate_dict using str_keys_distinct by simp
qed

text \<open>
  Claim C8, amended: the validator looks at the three required keys only. An additional key
  never changes its verdict, so a mapping with the three required, correctly typed fields is
  valid whether or not it has other keys.
\<close>
theorem validate_ignores_extra_keys:
  assumes "k \<notin> set required_fields"
  shows "validate_json_response (PyDict (d1 @ (k, v) # d2)) =
         validate_json_response (PyDict (d1 @ d2))"
proof -
  have "map_of (d1 @ (k, v) # d2) f = map_of (d1 @ d2) f" if "f \<noteq> k" for f
    using that by (simp add: map_add_def split: option.splits)
  moreover from assms have "str ''answer'' \<noteq> k" "str ''key_points'' \<noteq> k" "str ''sentiment'' \<noteq> k"
    by (auto simp: required_fields_def)
  ultimately show ?thesis unfolding validate_dict by simp
qed

text \<open>
  Claim C8 as stated (a mapping with an additional key is rejected) fails: the three
  required fields with a fourth key \<open>extra\<close> are accepted.
\<close>
theorem validate_accepts_extra_key:
  "str ''extra'' \<notin> {str ''answer'', str ''key_points'', str ''sentiment''} \<and>
   str ''extra'' \<in> set (map fst [(str ''answer'', PyStr (str ''x'')),
       (str ''key_points'', PyList [PyStr (str ''a'')]),
       (str ''sentiment'', PyStr (str ''positive'')), (str ''extra'', PyInt 1)]) \<and>
   validate_json_response (PyDict [(str ''answer'', PyStr (str ''x'')),
       (str ''key_points'', PyList [PyStr (str ''a'')]),
       (str ''sentiment'', PyStr (str ''positive'')), (str ''extra'', PyInt 1)]) = Inr True"
  by (simp add: validate_json_response_def required_fields_def valid_sentiments_def str_def)

text \<open>A valid mapping with the additional key \<open>extra\<close> in second place.\<close>
theorem validate_ignores_extra_keys_witness:
  "str ''extra'' \<notin> set required_fields \<and>
   validate_json_response (PyDict ([(str ''answer'', PyStr (str ''x''))] @ (str ''extra'', PyInt 1) #
       [(str ''key_points'', PyList []), (str ''sentiment'', PyStr (str ''neutral''))])) = Inr True"
proof -
  have h: "str ''extra'' \<notin> set required_fields" by (simp add: required_fields_def str_def)
  have "validate_json_response (PyDict ([(str ''answer'', PyStr (str ''x''))] @
       [(str ''key_points'', PyList []), (str ''sentiment'', PyStr (str ''neutral''))])) = Inr True"
    by (simp add: validate_json_response_def required_fields_def valid_sentiments_def str_def)
  with h validate_ignores_extra_keys [OF h, of "[(str ''answer'', PyStr (str ''x''))]" "PyInt 1"
      "[(str ''key_points'', PyList []), (str ''sentiment'', PyStr (str ''neutral''))]"]
  show ?thesis by simp
qed

text \<open>
  Claim C10: \<open>validate_json_response\<close> and \<open>clean_json_response\<close> of \<open>chatbot_gui.py\<close>
  agree with those of \<open>gigachat_json_api.py\<close> on every input.
\<close>
theorem copies_agree:
  "gui_validate_json_response = validate_json_response \<and>
   gui_clean_json_response = clean_json_response"
proof
  show "gui_validate_json_response = validate_json_response"
    by (rule ext)
      (simp only: gui_validate_json_response_def validate_json_response_def required_fields_def
         valid_sentiments_def)
  show "gui_clean_json_response = clean_json_response"
    by (rule ext)
      (simp only: gui_clean_json_response_def clean_json_response_def strip_fences_def Let_def)
qed

section \<open>The retry loop of \<open>gigachat_json_api.py\<close>\<close>

lemma scripted_apply: "scripted s calls chat = s calls"
  by (simp add: scripted_def)

lemma try_body_accepted: "accepted loads t v \<Longrightarrow> try_body loads t = Inr v"
  by (simp add: accepted_def try_body_def)

text \<open>The three ways in which the loop of \<open>gigachat_json_api.py\<close> retries a response.\<close>

lemma try_body_rejected:
  assumes "rejected loads t"
  obtains (decode) e where "loads (clean_json_response t) = Inl (JSONDecodeError e)"
      "try_body loads t = Inl (JSONDecodeError e)"
      "exhausted_msg loads m t = parse_failed_msg m (take 200 t) e"
    | (invalid) e where "try_body loads t = Inl (ValueError e)"
      "exhausted_msg loads m t = validation_failed_msg m e"
      "loads (clean_json_response t) = Inl (ValueError e) \<or>
       (\<exists>v. loads (clean_json_response t) = Inr v \<and> validate_json_response v = Inr False \<and>
          e = struct_msg)"
proof (cases "loads (clean_json_response t)")
  case (Inr v)
  with assms have "validate_json_response v = Inr False" by (simp add: rejected_def)
  with Inr show ?thesis
    by (intro invalid [of struct_msg]) (simp_all add: try_body_def exhausted_msg_def)
next
  case (Inl err)
  with assms show ?thesis
  proof (cases err)
    case (JSONDecodeError e)
    with Inl show ?thesis
      by (intro decode [of e]) (simp_all add: try_body_def exhausted_msg_def)
  next
    case (ValueError e)
    with Inl show ?thesis
      by (intro invalid [of e]) (simp_all add: try_body_def exhausted_msg_def)
  qed (simp_all add: rejected_def)
qed

lemma api_attempts_rejected:
  assumes all: "\<And>i. lo \<le> i \<Longrightarrow> int i < m \<Longrightarrow> \<exists>t. s i = Reply t \<and> rejected loads t"
  shows "lo \<le> a \<Longrightarrow> int a < m \<Longrightarrow> s a = Reply t \<Longrightarrow> n = nat m - Suc a \<Longrightarrow>
     api_attempts loads (scripted s) m a (Suc a) t =
       (Inl (ValueError (exhausted_msg loads m (reply_text (s (nat m - 1))))), nat m)"
proof (induction n arbitrary: a t)
  case 0
  then have last: "a = nat m - 1" and am: "\<not> int a < m - 1" and sa: "Suc a = nat m" by auto
  from all [OF 0(1) 0(2)] 0(3) have "rejected loads t" by auto
  then show ?case
  proof (cases rule: try_body_rejected [where m = m])
    case (decode e)
    then show ?thesis
      using 0(2) am sa 0(3) last by (subst api_attempts.simps) simp
  next
    case (invalid e)
    then show ?thesis
      using 0(2) am sa 0(3) last by (subst api_attempts.simps) simp
  qed
next
  case (Suc n)
  then have am: "int a < m - 1" and lt: "int (Suc a) < m" by auto
  from all [of "Suc a"] Suc.prems(1) lt obtain t' where t': "s (Suc a) = Reply t'" by auto
  have step: "api_attempts loads (scripted s) m (Suc a) (Suc (Suc a)) t' =
       (Inl (ValueError (exhausted_msg loads m (reply_text (s (nat m - 1))))), nat m)"
    using Suc.IH [of "Suc a" t'] Suc.prems t' lt by auto
  from all [OF Suc.prems(1) Suc.prems(2)] Suc.prems(3) have "rejected loads t" by auto
  then show ?case
  proof (cases rule: try_body_rejected [where m = m])
    case (decode e)
    then show ?thesis
      using Suc.prems(2) am t' step
      by (subst api_attempts.simps) (simp add: scripted_def)
  next
    case (invalid e)
    then show ?thesis
      using Suc.prems(2) am t' step
      by (subst api_attempts.simps) (simp add: scripted_def)
  qed
qed

lemma api_attempts_accepted:
  assumes all: "\<And>i. lo \<le> i \<Longrightarrow> i < k \<Longrightarrow> \<exists>t. s i = Reply t \<and> rejected loads t"
    and k: "int k < m" "s k = Reply tk" "accepted loads tk v"
  shows "lo \<le> a \<Longrightarrow> a \<le> k \<Longrightarrow> s a = Reply t \<Longrightarrow> n = k - a \<Longrightarrow>
     api_attempts loads (scripted s) m a (Suc a) t = (Inr v, Suc k)"
proof (induction n arbitrary: a t)
  case 0
  then have "a = k" by simp
  with 0(3) k(2) have "t = tk" by simp
  with k(1) try_body_accepted [OF k(3)] \<open>a = k\<close> show ?case
    by (subst api_attempts.simps) simp
next
  case (Suc n)
  then have ak: "a < k" by simp
  with k(1) have am: "int a < m" "int a < m - 1" by auto
  have "\<exists>t'. s (Suc a) = Reply t'"
  proof (cases "Suc a = k")
    case True
    with k(2) show ?thesis by simp
  next
    case False
    with ak have "Suc a < k" by simp
    with all [of "Suc a"] Suc.prems(1) show ?thesis by auto
  qed
  then obtain t' where t': "s (Suc a) = Reply t'" ..
  have step: "api_attempts loads (scripted s) m (Suc a) (Suc (Suc a)) t' = (Inr v, Suc k)"
    using Suc.IH [of "Suc a" t'] Suc.prems t' ak by auto
  from all [OF Suc.prems(1) ak] Suc.prems(3) have "rejected loads t" by auto
  then show ?case
  proof (cases rule: try_body_rejected [where m = m])
    case (decode e)
    then show ?thesis
      using am t' step by (subst api_attempts.simps) (simp add: scripted_def)
  next
    case (invalid e)
    then show ?thesis
      using am t' step by (subst api_attempts.simps) (simp add: scripted_def)
  qed
qed

lemma api_attempts_raise:
  "api_attempts loads (scripted s) m a c t = (r, n) \<Longrightarrow> c \<le> i \<Longrightarrow> i < n \<Longrightarrow> s i = Raise e \<Longrightarrow>
     r = Inl e \<and> n = Suc i"
proof (induction loads "scripted s" m a c t rule: api_attempts.induct)
  case (1 loads m a c t)
  have rec: "r = Inl e \<and> n = Suc i"
    if "int a < m" "int a < m - 1" "try_body loads t = Inl (JSONDecodeError x) \<or> try_body loads t = Inl (ValueError x)"
      and res: "(case s c of Raise err \<Rightarrow> (Inl err, c + 1)
              | Reply t' \<Rightarrow> api_attempts loads (scripted s) m (a + 1) (c + 1) t') = (r, n)" for x
  proof (cases "s c")
    case (Raise err)
    with res have "r = Inl err" "n = Suc c" by auto
    with 1(4,5,6) Raise show ?thesis by (cases "i = c") auto
  next
    case (Reply t')
    with 1(6) have "i \<noteq> c" by auto
    with 1(4) have ci: "c + 1 \<le> i" by simp
    from res Reply have r: "api_attempts loads (scripted s) m (a + 1) (c + 1) t' = (r, n)" by simp
    from that(3) show ?thesis
    proof
      assume "try_body loads t = Inl (JSONDecodeError x)"
      from 1(1) [OF that(1) this _ that(2) _ r ci 1(5,6)] Reply show ?thesis
        by (simp add: scripted_def)
    next
      assume "try_body loads t = Inl (ValueError x)"
      from 1(2) [OF that(1) this _ that(2) _ r ci 1(5,6)] Reply show ?thesis
        by (simp add: scripted_def)
    qed
  qed
  from 1(3) have unf: "(if int a < m then
        (case try_body loads t of
           Inr json_data \<Rightarrow> (Inr json_data, c)
         | Inl (JSONDecodeError e) \<Rightarrow>
             if int a < m - 1 then
               (case s c of
                  Raise err \<Rightarrow> (Inl err, c + 1)
                | Reply t' \<Rightarrow> api_attempts loads (scripted s) m (a + 1) (c + 1) t')
             else (Inl (ValueError (parse_failed_msg m (take 200 t) e)), c)
         | Inl (ValueError e) \<Rightarrow>
             if int a < m - 1 then
               (case s c of
                  Raise err \<Rightarrow> (Inl err, c + 1)
                | Reply t' \<Rightarrow> api_attempts loads (scripted s) m (a + 1) (c + 1) t')
             else (Inl (ValueError (validation_failed_msg m e)), c)
         | Inl err \<Rightarrow> (Inl err, c))
      else (Inl (ValueError no_valid_answer_msg), c)) = (r, n)"
    by (subst (asm) api_attempts.simps) (unfold scripted_apply, assumption)
  show ?case
  proof (cases "int a < m")
    case False
    with unf 1(4,5) show ?thesis by auto
  next
    case am: True
    show ?thesis
    proof (cases "try_body loads t")
      case (Inr v)
      with unf am 1(4,5) show ?thesis by auto
    next
      case (Inl err)
      show ?thesis
      proof (cases "int a < m - 1")
        case False
        with unf am Inl 1(4,5) show ?thesis by (cases err) auto
      next
        case True
        show ?thesis
        proof (cases err)
          case (JSONDecodeError x)
          with unf am Inl True rec [of x] show ?thesis by simp
        next
          case (ValueError x)
          with unf am Inl True rec [of x] show ?thesis by simp
        qed (use unf am Inl 1(4,5) in auto)
      qed
    qed
  qed
qed

section \<open>The retry loop of \<open>chatbot_gui.py\<close>, transport errors and exhaustion\<close>

lemma gui_attempts_step:
  assumes "gui_attempts loads (scripted s) m a c chat rt = (r, n)"
  shows "(n = c \<and> \<not> int a < m) \<or>
     (int a < m \<and> n = Suc c \<and> (\<forall>e. s c = Raise e \<and> is_transport e \<longrightarrow> r = Inl e)) \<or>
     (int a < m - 1 \<and> (\<forall>e. s c = Raise e \<longrightarrow> \<not> is_transport e) \<and>
        (\<exists>chat' rt'. gui_attempts loads (scripted s) m (a + 1) (c + 1) chat' rt' = (r, n)))"
proof (cases "int a < m")
  case False
  with assms show ?thesis by (subst (asm) gui_attempts.simps) auto
next
  case am: True
  obtain tried rt' where tr: "(case s c of Raise err \<Rightarrow> (Inl err, rt)
      | Reply t \<Rightarrow> (try_body loads t, Some t)) = (tried, rt')"
    by (cases "case s c of Raise err \<Rightarrow> (Inl err, rt) | Reply t \<Rightarrow> (try_body loads t, Some t)") auto
  have tra: "is_transport e \<Longrightarrow> s c = Raise e \<Longrightarrow> tried = Inl e" for e
    using tr by auto
  have ntr: "s c = Raise e \<Longrightarrow> tried = Inl e" for e
    using tr by auto
  from assms am tr have unf: "(case tried of
              Inr json_data \<Rightarrow> (Inr json_data, c + 1)
            | Inl (JSONDecodeError e) \<Rightarrow>
                if int a < m - 1 then
                  gui_attempts loads (scripted s) m (a + 1) (c + 1) Retry_not_json rt'
                else
                  (Inl (ValueError (parse_failed_msg m
                     (case rt' of
                        None \<Rightarrow> no_answer
                      | Some t \<Rightarrow> if t \<noteq> [] then take 200 t else no_answer) e)), c + 1)
            | Inl (ValueError e) \<Rightarrow>
                if sublist structure_marker e \<and> int a < m - 1 then
                  gui_attempts loads (scripted s) m (a + 1) (c + 1) Retry_wrong_structure rt'
                else (Inl (ValueError e), c + 1)
            | Inl err \<Rightarrow> (Inl err, c + 1)) = (r, n)"
    by (subst (asm) gui_attempts.simps) (simp add: scripted_apply)
  show ?thesis
  proof (cases tried)
    case (Inr v)
    with unf am tra show ?thesis by auto
  next
    case (Inl err)
    show ?thesis
    proof (cases err)
      case (JSONDecodeError x)
      with unf am Inl ntr show ?thesis by (cases "int a < m - 1") auto
    next
      case (ValueError x)
      with unf am Inl ntr show ?thesis
        by (cases "sublist structure_marker x \<and> int a < m - 1") auto
    qed (use unf am Inl tra in auto)
  qed
qed

lemma gui_attempts_raise:
  "k = nat (m - int a) \<Longrightarrow> gui_attempts loads (scripted s) m a c chat rt = (r, n) \<Longrightarrow>
     c \<le> i \<Longrightarrow> i < n \<Longrightarrow> s i = Raise e \<Longrightarrow> is_transport e \<Longrightarrow> r = Inl e \<and> n = Suc i"
proof (induction k arbitrary: a c chat rt)
  case 0
  then have "\<not> int a < m" by simp
  with gui_attempts_step [OF 0(2)] have "n = c" by auto
  with 0(3,4) show ?case by simp
next
  case (Suc k)
  from gui_attempts_step [OF Suc.prems(2)] show ?case
  proof (elim disjE conjE exE)
    assume "n = c"
    with Suc.prems(3,4) show ?thesis by simp
  next
    assume n: "n = Suc c" and tr: "\<forall>e. s c = Raise e \<and> is_transport e \<longrightarrow> r = Inl e"
    with Suc.prems(3,4) have "i = c" by simp
    with n tr Suc.prems(5,6) show ?thesis by auto
  next
    fix chat' rt'
    assume am: "int a < m - 1" and nt: "\<forall>e. s c = Raise e \<longrightarrow> \<not> is_transport e"
      and rec: "gui_attempts loads (scripted s) m (a + 1) (c + 1) chat' rt' = (r, n)"
    from nt Suc.prems(5,6) have "i \<noteq> c" by auto
    with Suc.prems(3) have ci: "c + 1 \<le> i" by simp
    from Suc.prems(1) am have "k = nat (m - int (a + 1))" by simp
    from Suc.IH [OF this rec ci Suc.prems(4,5,6)] show ?thesis .
  qed
qed

text \<open>
  Claim C6: a provider call that raises a transport-level error ends \<open>send_json_request\<close>
  with that error and is the last call made, in both variants: whenever call \<open>i\<close> was made
  and raised \<open>e\<close>, the result is \<open>e\<close> and \<open>i + 1\<close> calls were made in all.
\<close>
theorem transport_error_not_retried:
  assumes "s i = Raise e" and "is_transport e"
  shows "(send_json_request (Inr (Some (scripted s))) loads m = (r, n) \<and> i < n
            \<longrightarrow> r = Inl e \<and> n = Suc i) \<and>
         (gui_send_json_request (Some (scripted s)) loads m = (r', n') \<and> i < n'
            \<longrightarrow> r' = Inl e \<and> n' = Suc i)"
proof (rule conjI; rule impI)
  assume a: "send_json_request (Inr (Some (scripted s))) loads m = (r, n) \<and> i < n"
  show "r = Inl e \<and> n = Suc i"
  proof (cases "s 0")
    case (Raise err)
    with a have "r = Inl err" "n = 1" by (auto simp: send_json_request_def scripted_apply)
    with a Raise assms(1) show ?thesis by auto
  next
    case (Reply t)
    with a have run: "api_attempts loads (scripted s) m 0 1 t = (r, n)"
      by (simp add: send_json_request_def scripted_apply)
    have "i \<noteq> 0"
    proof
      assume "i = 0"
      with Reply assms(1) show False by simp
    qed
    then have "1 \<le> i" by simp
    from api_attempts_raise [OF run this _ assms(1)] a show ?thesis by simp
  qed
next
  assume a: "gui_send_json_request (Some (scripted s)) loads m = (r', n') \<and> i < n'"
  then have run: "gui_attempts loads (scripted s) m 0 0 System_prompt None = (r', n')"
    by (simp add: gui_send_json_request_def)
  from gui_attempts_raise [OF refl run _ _ assms] a show "r' = Inl e \<and> n' = Suc i" by simp
qed

text \<open>
  Claim C9: with \<open>max_retries = 0\<close>, \<open>send_json_request\<close> of \<open>gigachat_json_api.py\<close>
  makes its one request, never decodes the response (the result is the same for every
  decoder) and raises \<open>ValueError\<close>; the variant of \<open>chatbot_gui.py\<close> makes no call and
  raises (\<open>ValueError\<close>, or \<open>ConnectionError\<close> when it has no client).
\<close>
theorem zero_retries:
  assumes "client 0 System_prompt = Reply t"
  shows "send_json_request (Inr (Some client)) loads 0 =
           (Inl (ValueError no_valid_answer_msg), 1) \<and>
         gui_send_json_request (Some client') loads' 0 =
           (Inl (ValueError gui_no_valid_answer_msg), 0) \<and>
         gui_send_json_request None loads' 0 = (Inl (ConnectionError gui_client_msg), 0)"
proof (intro conjI)
  show "send_json_request (Inr (Some client)) loads 0 =
           (Inl (ValueError no_valid_answer_msg), 1)"
    using assms by (simp add: send_json_request_def api_attempts.simps)
  show "gui_send_json_request (Some client') loads' 0 =
           (Inl (ValueError gui_no_valid_answer_msg), 0)"
    by (simp add: gui_send_json_request_def gui_attempts.simps)
  show "gui_send_json_request None loads' 0 = (Inl (ConnectionError gui_client_msg), 0)"
    by (simp add: gui_send_json_request_def)
qed

lemma sublist_parse_failed_msg:
  "sublist (str_int m) (parse_failed_msg m shown e)"
  "sublist shown (parse_failed_msg m shown e)"
  "sublist e (parse_failed_msg m shown e)"
proof -
  show "sublist (str_int m) (parse_failed_msg m shown e)"
    unfolding parse_failed_msg_def sublist_def by (metis append.assoc)
  show "sublist shown (parse_failed_msg m shown e)"
    unfolding parse_failed_msg_def sublist_def by (metis append.assoc)
  show "sublist e (parse_failed_msg m shown e)"
    unfolding parse_failed_msg_def sublist_def by (metis append.assoc append_Nil2)
qed

lemma sublist_validation_failed_msg:
  "sublist (str_int m) (validation_failed_msg m e)"
  "sublist e (validation_failed_msg m e)"
proof -
  show "sublist (str_int m) (validation_failed_msg m e)"
    unfolding validation_failed_msg_def sublist_def by (metis append.assoc)
  show "sublist e (validation_failed_msg m e)"
    unfolding validation_failed_msg_def sublist_def by (metis append.assoc append_Nil2)
qed

text \<open>
  Claim C7, amended: when \<open>send_json_request\<close> of \<open>gigachat_json_api.py\<close> exhausts its
  budget (\<open>max_retries \<ge> 1\<close>, every response retried), it raises \<open>ValueError\<close> after
  \<open>max_retries\<close> calls. If decoding the last response raised \<open>JSONDecodeError\<close>, the
  message is the text of lines 209 to 211: it carries \<open>max_retries\<close>, the first 200
  characters of the last response and the decoder's error text. If the last attempt raised
  another \<open>ValueError\<close> (the validation failure, or a \<open>ValueError\<close> of the decoder that is
  not a \<open>JSONDecodeError\<close>), the message is the text of lines 226 and 227: it carries
  \<open>max_retries\<close> and that error's text.
\<close>
theorem exhaustion_message:
  assumes "1 \<le> m"
    and "\<forall>i. int i < m \<longrightarrow> (\<exists>t. s i = Reply t \<and> rejected loads t)"
    and "s (nat m - 1) = Reply t"
  shows "(\<exists>e. loads (clean_json_response t) = Inl (JSONDecodeError e) \<and>
            send_json_request (Inr (Some (scripted s))) loads m =
              (Inl (ValueError (parse_failed_msg m (take 200 t) e)), nat m) \<and>
            sublist (str_int m) (parse_failed_msg m (take 200 t) e) \<and>
            sublist (take 200 t) (parse_failed_msg m (take 200 t) e) \<and>
            length (take 200 t) \<le> 200 \<and>
            sublist e (parse_failed_msg m (take 200 t) e)) \<or>
         (\<exists>e. (loads (clean_json_response t) = Inl (ValueError e) \<or>
                (\<exists>v. loads (clean_json_response t) = Inr v \<and>
                   validate_json_response v = Inr False \<and> e = struct_msg)) \<and>
            send_json_request (Inr (Some (scripted s))) loads m =
              (Inl (ValueError (validation_failed_msg m e)), nat m) \<and>
            sublist (str_int m) (validation_failed_msg m e) \<and>
            sublist e (validation_failed_msg m e))"
proof -
  from assms(1,2) obtain t0 where t0: "s 0 = Reply t0" by force
  have all: "\<And>i. 0 \<le> i \<Longrightarrow> int i < m \<Longrightarrow> \<exists>t. s i = Reply t \<and> rejected loads t"
    using assms(2) by blast
  have "api_attempts loads (scripted s) m 0 (Suc 0) t0 =
       (Inl (ValueError (exhausted_msg loads m (reply_text (s (nat m - 1))))), nat m)"
    using assms(1) t0 by (intro api_attempts_rejected [where lo = 0 and s = s, OF all]) auto
  with t0 assms(3) have run: "send_json_request (Inr (Some (scripted s))) loads m =
       (Inl (ValueError (exhausted_msg loads m t)), nat m)"
    by (simp add: send_json_request_def scripted_apply)
  from assms(1) have "int (nat m - 1) < m" by simp
  with assms(2,3) have "rejected loads t" by auto
  then show ?thesis
  proof (cases rule: try_body_rejected [where m = m])
    case (decode e)
    with run have "loads (clean_json_response t) = Inl (JSONDecodeError e) \<and>
            send_json_request (Inr (Some (scripted s))) loads m =
              (Inl (ValueError (parse_failed_msg m (take 200 t) e)), nat m) \<and>
            sublist (str_int m) (parse_failed_msg m (take 200 t) e) \<and>
            sublist (take 200 t) (parse_failed_msg m (take 200 t) e) \<and>
            length (take 200 t) \<le> 200 \<and>
            sublist e (parse_failed_msg m (take 200 t) e)"
      by (simp add: sublist_parse_failed_msg)
    then show ?thesis by blast
  next
    case (invalid e)
    with run have "(loads (clean_json_response t) = Inl (ValueError e) \<or>
                (\<exists>v. loads (clean_json_response t) = Inr v \<and>
                   validate_json_response v = Inr False \<and> e = struct_msg)) \<and>
            send_json_request (Inr (Some (scripted s))) loads m =
              (Inl (ValueError (validation_failed_msg m e)), nat m) \<and>
            sublist (str_int m) (validation_failed_msg m e) \<and>
            sublist e (validation_failed_msg m e)"
      by (simp add: sublist_validation_failed_msg)
    then show ?thesis by blast
  qed
qed

section \<open>Closed examples\<close>

lemmas clean_unfold = clean_json_response_def strip_fences_def strip_def str_def startswith_def
  endswith_def isspace_def slice_def Let_def

lemma clean_samples:
  "clean_json_response text_valid = text_valid"
  "clean_json_response text_maybe = text_maybe"
  "clean_json_response text_prose = text_prose"
  "clean_json_response text_null = text_null"
  by (simp_all add: text_valid_def text_maybe_def text_prose_def text_null_def clean_unfold)

lemma loads_samples:
  "loads_sample text_valid = Inr value_valid"
  "loads_sample text_maybe = Inr value_maybe"
  "loads_sample text_prose = Inl (JSONDecodeError decode_error_sample)"
  "loads_sample text_null = Inr PyNone"
  by (simp_all add: loads_sample_def text_valid_def text_maybe_def text_prose_def text_null_def
        str_def)

lemma validate_samples:
  "validate_json_response value_valid = Inr True"
  "validate_json_response value_maybe = Inr False"
  "validate_json_response PyNone = Inl TypeError"
  by (simp_all add: validate_json_response_def required_fields_def valid_sentiments_def
        value_valid_def value_maybe_def str_def)

lemma try_samples:
  "try_body loads_sample text_valid = Inr value_valid"
  "try_body loads_sample text_maybe = Inl (ValueError struct_msg)"
  "try_body loads_sample text_prose = Inl (JSONDecodeError decode_error_sample)"
  "try_body loads_sample text_null = Inl TypeError"
  by (simp_all add: try_body_def clean_samples loads_samples validate_samples)

lemma rejected_samples:
  "rejected loads_sample text_maybe" "rejected loads_sample text_prose"
  "accepted loads_sample text_valid value_valid"
  by (simp_all add: rejected_def accepted_def clean_samples loads_samples validate_samples)

lemma gui_rejected_samples:
  "gui_rejected loads_sample text_maybe" "gui_rejected loads_sample text_prose"
  by (simp_all add: gui_rejected_def clean_samples loads_samples validate_samples)

lemma structure_marker_in_struct_msg: "sublist structure_marker struct_msg"
proof -
  have "struct_msg = [] @ structure_marker @ drop 14 struct_msg"
    by (simp add: struct_msg_def structure_marker_def)
  then show ?thesis unfolding sublist_def by blast
qed

text \<open>
  Claim C1 (retry bound): with \<open>max_retries \<ge> 1\<close> and a provider whose every response is
  invalid, \<open>send_json_request\<close> makes exactly \<open>max_retries\<close> calls and raises
  \<open>ValueError\<close>. The code breaks it on the response \<open>null\<close>: it is decoded to \<open>None\<close>,
  the validator raises \<open>TypeError\<close> on the test \<open>field in response_data\<close>, no handler
  catches it, and both variants stop after one call of three.
\<close>
theorem retry_bound_fails_on_null:
  "loads_sample (clean_json_response text_null) = Inr PyNone \<and>
   validate_json_response PyNone = Inl TypeError \<and>
   send_json_request (Inr (Some (scripted (\<lambda>i. Reply text_null)))) loads_sample 3 =
     (Inl TypeError, 1) \<and>
   gui_send_json_request (Some (scripted (\<lambda>i. Reply text_null))) loads_sample 3 =
     (Inl TypeError, 1)"
  by (simp add: send_json_request_def gui_send_json_request_def scripted_apply
        api_attempts.simps gui_attempts.simps try_samples clean_samples loads_samples
        validate_samples)

text \<open>
  Claim C2 (success short-circuits): with invalid responses on calls \<open>1..k-1\<close> and a valid
  one on call \<open>k\<close>, exactly \<open>k\<close> calls are made and the decoded value is returned. The
  code breaks it for \<open>k = 2\<close> when the first response is \<open>null\<close>: the \<open>TypeError\<close> of
  the validator ends both variants after one call, before the valid second response.
\<close>
theorem short_circuit_fails_after_null:
  "accepted loads_sample text_valid value_valid \<and>
   send_json_request (Inr (Some (scripted (\<lambda>i. if i = 0 then Reply text_null else Reply text_valid))))
       loads_sample 3 = (Inl TypeError, 1) \<and>
   gui_send_json_request (Some (scripted (\<lambda>i. if i = 0 then Reply text_null else Reply text_valid)))
       loads_sample 3 = (Inl TypeError, 1)"
  by (simp add: send_json_request_def gui_send_json_request_def scripted_apply
        api_attempts.simps gui_attempts.simps try_samples rejected_samples)

text \<open>The second of three calls fails: two calls are made and the error is the result.\<close>
theorem transport_error_not_retried_witness:
  "(\<lambda>i. if i = 0 then Reply text_prose else Raise (TransportError (str ''timeout''))) (1::nat)
      = Raise (TransportError (str ''timeout'')) \<and>
   is_transport (TransportError (str ''timeout'')) \<and>
   send_json_request (Inr (Some (scripted
       (\<lambda>i. if i = 0 then Reply text_prose else Raise (TransportError (str ''timeout''))))))
       loads_sample 3 = (Inl (TransportError (str ''timeout'')), 2) \<and>
   gui_send_json_request (Some (scripted
       (\<lambda>i. if i = 0 then Reply text_prose else Raise (TransportError (str ''timeout'')))))
       loads_sample 3 = (Inl (TransportError (str ''timeout'')), 2)"
proof -
  let ?s = "\<lambda>i::nat. if i = 0 then Reply text_prose else Raise (TransportError (str ''timeout''))"
  let ?e = "TransportError (str ''timeout'')"
  have h1: "?s 1 = Raise ?e" by simp
  have h2: "is_transport ?e" by simp
  have a: "\<exists>r n. send_json_request (Inr (Some (scripted ?s))) loads_sample 3 = (r, n) \<and> 1 < n"
    by (simp add: send_json_request_def scripted_apply api_attempts.simps try_samples)
  have g: "\<exists>r n. gui_send_json_request (Some (scripted ?s)) loads_sample 3 = (r, n) \<and> 1 < n"
    by (simp add: gui_send_json_request_def scripted_apply gui_attempts.simps try_samples)
  from a obtain r n where a': "send_json_request (Inr (Some (scripted ?s))) loads_sample 3 = (r, n) \<and> 1 < n"
    by blast
  from g obtain r' n' where g': "gui_send_json_request (Some (scripted ?s)) loads_sample 3 = (r', n') \<and> 1 < n'"
    by blast
  from transport_error_not_retried [of ?s 1 ?e loads_sample 3 r n r' n'] h1 h2 a' g'
  have "r = Inl ?e \<and> n = 2 \<and> r' = Inl ?e \<and> n' = 2" by simp
  with a' g' h1 h2 show ?thesis by simp
qed

text \<open>Even a response that is a valid schema object is not returned.\<close>
theorem zero_retries_witness:
  "accepted loads_sample text_valid value_valid \<and>
   send_json_request (Inr (Some (scripted (\<lambda>i. Reply text_valid)))) loads_sample 0 =
     (Inl (ValueError no_valid_answer_msg), 1) \<and>
   gui_send_json_request (Some (scripted (\<lambda>i. Reply text_valid))) loads_sample 0 =
     (Inl (ValueError gui_no_valid_answer_msg), 0)"
proof -
  have "scripted (\<lambda>i. Reply text_valid) 0 System_prompt = Reply text_valid"
    by (simp add: scripted_apply)
  from zero_retries [where client = "scripted (\<lambda>i. Reply text_valid)"
      and client' = "scripted (\<lambda>i. Reply text_valid)" and loads = loads_sample
      and loads' = loads_sample, OF this] rejected_samples(3)
  show ?thesis by simp
qed

text \<open>Two undecodable responses with a budget of two.\<close>
theorem exhaustion_message_witness:
  "rejected loads_sample text_prose \<and>
   loads_sample (clean_json_response text_prose) = Inl (JSONDecodeError decode_error_sample) \<and>
   send_json_request (Inr (Some (scripted (\<lambda>i. Reply text_prose)))) loads_sample 2 =
     (Inl (ValueError (parse_failed_msg 2 (take 200 text_prose) decode_error_sample)), 2) \<and>
   sublist (str_int 2) (parse_failed_msg 2 (take 200 text_prose) decode_error_sample) \<and>
   sublist (take 200 text_prose) (parse_failed_msg 2 (take 200 text_prose) decode_error_sample) \<and>
   sublist decode_error_sample (parse_failed_msg 2 (take 200 text_prose) decode_error_sample)"
proof -
  have 1: "(1::int) \<le> 2" by simp
  have 2: "\<forall>i. int i < 2 \<longrightarrow> (\<exists>t. (\<lambda>i::nat. Reply text_prose) i = Reply t \<and> rejected loads_sample t)"
    by (simp add: rejected_samples)
  have 3: "(\<lambda>i::nat. Reply text_prose) (nat 2 - 1) = Reply text_prose" by simp
  from exhaustion_message [OF 1 2 3] rejected_samples(2) show ?thesis
    by (simp add: clean_samples loads_samples)
qed

text \<open>
  Claim C7 as stated (the message carries the last raw response on both kinds of failure)
  fails when the last attempt fails validation: the message of lines 226 and 227 holds the
  attempt count and the validation error only.
\<close>
theorem validation_exhaustion_omits_response:
  "rejected loads_sample text_maybe \<and>
   send_json_request (Inr (Some (scripted (\<lambda>i. Reply text_maybe)))) loads_sample 1 =
     (Inl (ValueError (validation_failed_msg 1 struct_msg)), 1) \<and>
   \<not> sublist (take 200 text_maybe) (validation_failed_msg 1 struct_msg)"
proof -
  have run: "send_json_request (Inr (Some (scripted (\<lambda>i. Reply text_maybe)))) loads_sample 1 =
     (Inl (ValueError (validation_failed_msg 1 struct_msg)), 1)"
    by (simp add: send_json_request_def scripted_apply api_attempts.simps try_samples)
  have in1: "123 \<in> set (take 200 text_maybe)" by (simp add: text_maybe_def str_def)
  have in2: "123 \<notin> set (validation_failed_msg 1 struct_msg)"
    by (simp add: validation_failed_msg_def struct_msg_def str_int_def str_nat.simps)
  have "\<not> sublist (take 200 text_maybe) (validation_failed_msg 1 struct_msg)"
  proof
    assume "sublist (take 200 text_maybe) (validation_failed_msg 1 struct_msg)"
    then have "set (take 200 text_maybe) \<subseteq> set (validation_failed_msg 1 struct_msg)"
      by (rule set_mono_sublist)
    with in1 in2 show False by blast
  qed
  with run rejected_samples(1) show ?thesis by simp
qed

text \<open>The example of claim C5: prose around a JSON object.\<close>
theorem clean_slices_outermost_braces_witness:
  "strip_fences (str ''Sure! {\"answer\":\"x\",\"key_points\":[\"a\"],\"sentiment\":\"positive\"} Hope that helps!'')
     = str ''Sure! '' @ 123 # str ''\"answer\":\"x\",\"key_points\":[\"a\"],\"sentiment\":\"positive\"'' @ 125 # str '' Hope that helps!'' \<and>
   123 \<notin> set (str ''Sure! '') \<and> 125 \<notin> set (str '' Hope that helps!'') \<and>
   clean_json_response (str ''Sure! {\"answer\":\"x\",\"key_points\":[\"a\"],\"sentiment\":\"positive\"} Hope that helps!'')
     = str ''{\"answer\":\"x\",\"key_points\":[\"a\"],\"sentiment\":\"positive\"}''"
proof -
  have 1: "strip_fences (str ''Sure! {\"answer\":\"x\",\"key_points\":[\"a\"],\"sentiment\":\"positive\"} Hope that helps!'')
     = str ''Sure! '' @ 123 # str ''\"answer\":\"x\",\"key_points\":[\"a\"],\"sentiment\":\"positive\"'' @ 125 # str '' Hope that helps!''"
    by (simp add: strip_fences_def strip_def str_def startswith_def endswith_def isspace_def Let_def)
  have 2: "123 \<notin> set (str ''Sure! '')" by (simp add: str_def)
  have 3: "125 \<notin> set (str '' Hope that helps!'')" by (simp add: str_def)
  have 4: "123 # str ''\"answer\":\"x\",\"key_points\":[\"a\"],\"sentiment\":\"positive\"'' @ [125]
     = str ''{\"answer\":\"x\",\"key_points\":[\"a\"],\"sentiment\":\"positive\"}''"
    by (simp add: str_def)
  from clean_slices_outermost_braces [OF 1 2 3] 1 2 3 4 show ?thesis by simp
qed

section \<open>The retry bound on rejected responses\<close>

text \<open>The two ways in which the loop of \<open>chatbot_gui.py\<close> retries a response.\<close>

lemma try_body_gui_rejected:
  assumes "gui_rejected loads t"
  obtains (decode) e where "try_body loads t = Inl (JSONDecodeError e)"
    | (invalid) e where "try_body loads t = Inl (ValueError e)" "sublist structure_marker e"
proof (cases "loads (clean_json_response t)")
  case (Inr v)
  with assms have "validate_json_response v = Inr False" by (simp add: gui_rejected_def)
  with Inr show ?thesis
    by (intro invalid [of struct_msg])
      (simp_all add: try_body_def structure_marker_in_struct_msg)
next
  case (Inl err)
  with assms show ?thesis
  proof (cases err)
    case (JSONDecodeError e)
    with Inl show ?thesis by (intro decode [of e]) (simp add: try_body_def)
  next
    case (ValueError e)
    with Inl assms show ?thesis
      by (intro invalid [of e]) (simp_all add: try_body_def gui_rejected_def)
  qed (simp_all add: gui_rejected_def)
qed

lemma gui_attempts_rejected:
  assumes all: "\<And>i. lo \<le> i \<Longrightarrow> int i < m \<Longrightarrow> \<exists>t. s i = Reply t \<and> gui_rejected loads t"
  shows "lo \<le> a \<Longrightarrow> int a < m \<Longrightarrow> n = nat m - Suc a \<Longrightarrow>
     \<exists>msg. gui_attempts loads (scripted s) m a a chat rt = (Inl (ValueError msg), nat m)"
proof (induction n arbitrary: a chat rt)
  case 0
  then have am: "\<not> int a < m - 1" and sa: "Suc a = nat m" by auto
  from all [OF 0(1) 0(2)] obtain t where t: "s a = Reply t" "gui_rejected loads t" by auto
  from t(2) show ?case
  proof (cases rule: try_body_gui_rejected)
    case (decode e)
    then show ?thesis
      using 0(2) am sa t(1) by (subst gui_attempts.simps) (simp add: scripted_apply)
  next
    case (invalid e)
    then show ?thesis
      using 0(2) am sa t(1) by (subst gui_attempts.simps) (simp add: scripted_apply)
  qed
next
  case (Suc n)
  then have am: "int a < m - 1" and lt: "int (Suc a) < m" by auto
  have step: "\<exists>msg. gui_attempts loads (scripted s) m (Suc a) (Suc a) chat' rt' =
       (Inl (ValueError msg), nat m)" for chat' rt'
    using Suc.IH [of "Suc a" chat' rt'] Suc.prems lt by auto
  from all [OF Suc.prems(1) Suc.prems(2)] obtain t where t: "s a = Reply t" "gui_rejected loads t"
    by auto
  from t(2) show ?case
  proof (cases rule: try_body_gui_rejected)
    case (decode e)
    then show ?thesis
      using Suc.prems(2) am t(1) step [of Retry_not_json "Some t"]
      by (subst gui_attempts.simps) (simp add: scripted_apply)
  next
    case (invalid e)
    then show ?thesis
      using Suc.prems(2) am t(1) step [of Retry_wrong_structure "Some t"]
      by (subst gui_attempts.simps) (simp add: scripted_apply)
  qed
qed

lemma gui_attempts_accepted:
  assumes all: "\<And>i. lo \<le> i \<Longrightarrow> i < k \<Longrightarrow> \<exists>t. s i = Reply t \<and> gui_rejected loads t"
    and k: "int k < m" "s k = Reply tk" "accepted loads tk v"
  shows "lo \<le> a \<Longrightarrow> a \<le> k \<Longrightarrow> n = k - a \<Longrightarrow>
     gui_attempts loads (scripted s) m a a chat rt = (Inr v, Suc k)"
proof (induction n arbitrary: a chat rt)
  case 0
  then have "a = k" by simp
  with k(1,2) try_body_accepted [OF k(3)] show ?case
    by (subst gui_attempts.simps) (simp add: scripted_apply)
next
  case (Suc n)
  then have ak: "a < k" by simp
  with k(1) have am: "int a < m" "int a < m - 1" by auto
  have step: "gui_attempts loads (scripted s) m (Suc a) (Suc a) chat' rt' = (Inr v, Suc k)"
    for chat' rt'
    using Suc.IH [of "Suc a" chat' rt'] Suc.prems ak by auto
  from all [OF Suc.prems(1) ak] obtain t where t: "s a = Reply t" "gui_rejected loads t" by auto
  from t(2) show ?case
  proof (cases rule: try_body_gui_rejected)
    case (decode e)
    then show ?thesis
      using am t(1) step [of Retry_not_json "Some t"]
      by (subst gui_attempts.simps) (simp add: scripted_apply)
  next
    case (invalid e)
    then show ?thesis
      using am t(1) step [of Retry_wrong_structure "Some t"]
      by (subst gui_attempts.simps) (simp add: scripted_apply)
  qed
qed

text \<open>
  The retry bound and the short circuit, for responses that the loop retries: exactly
  \<open>max_retries\<close> calls and a \<open>ValueError\<close>; exactly \<open>k + 1\<close> calls and the decoded
  value when call \<open>k\<close> (counted from 0) is the first accepted one. The loop of
  \<open>chatbot_gui.py\<close> retries a \<open>ValueError\<close> only when its text holds the marker of
  line 155.
\<close>

lemma retry_bound_when_rejected:
  assumes "1 \<le> m" and "\<And>i. int i < m \<Longrightarrow> \<exists>t. s i = Reply t \<and> rejected loads t"
  shows "\<exists>msg. send_json_request (Inr (Some (scripted s))) loads m = (Inl (ValueError msg), nat m)"
proof -
  from assms obtain t0 where t0: "s 0 = Reply t0" by force
  have all: "\<And>i. 0 \<le> i \<Longrightarrow> int i < m \<Longrightarrow> \<exists>t. s i = Reply t \<and> rejected loads t"
    using assms(2) by blast
  have "api_attempts loads (scripted s) m 0 (Suc 0) t0 =
       (Inl (ValueError (exhausted_msg loads m (reply_text (s (nat m - 1))))), nat m)"
    using assms(1) t0 by (intro api_attempts_rejected [where lo = 0 and s = s, OF all]) auto
  with t0 show ?thesis by (simp add: send_json_request_def scripted_apply)
qed

lemma gui_retry_bound_when_rejected:
  assumes "1 \<le> m" and "\<And>i. int i < m \<Longrightarrow> \<exists>t. s i = Reply t \<and> gui_rejected loads t"
  shows "\<exists>msg. gui_send_json_request (Some (scripted s)) loads m = (Inl (ValueError msg), nat m)"
proof -
  have all: "\<And>i. 0 \<le> i \<Longrightarrow> int i < m \<Longrightarrow> \<exists>t. s i = Reply t \<and> gui_rejected loads t"
    using assms(2) by blast
  have "\<exists>msg. gui_attempts loads (scripted s) m 0 0 System_prompt None = (Inl (ValueError msg), nat m)"
    using assms(1) by (intro gui_attempts_rejected [where lo = 0 and s = s, OF all]) auto
  then show ?thesis by (simp add: gui_send_json_request_def)
qed

lemma success_short_circuits_when_rejected:
  assumes "int k < m" and "\<And>i. i < k \<Longrightarrow> \<exists>t. s i = Reply t \<and> rejected loads t"
    and "s k = Reply tk" and "accepted loads tk v"
  shows "send_json_request (Inr (Some (scripted s))) loads m = (Inr v, Suc k)"
proof -
  have "\<exists>t0. s 0 = Reply t0"
    using assms(2) [of 0] assms(3) by (cases "k = 0") auto
  then obtain t0 where t0: "s 0 = Reply t0" ..
  have all: "\<And>i. 0 \<le> i \<Longrightarrow> i < k \<Longrightarrow> \<exists>t. s i = Reply t \<and> rejected loads t"
    using assms(2) by blast
  have "api_attempts loads (scripted s) m 0 (Suc 0) t0 = (Inr v, Suc k)"
    using t0 by (intro api_attempts_accepted [where lo = 0 and s = s and k = k, OF all assms(1,3,4)]) auto
  with t0 show ?thesis by (simp add: send_json_request_def scripted_apply)
qed

lemma gui_success_short_circuits_when_rejected:
  assumes "int k < m" and "\<And>i. i < k \<Longrightarrow> \<exists>t. s i = Reply t \<and> gui_rejected loads t"
    and "s k = Reply tk" and "accepted loads tk v"
  shows "gui_send_json_request (Some (scripted s)) loads m = (Inr v, Suc k)"
proof -
  have all: "\<And>i. 0 \<le> i \<Longrightarrow> i < k \<Longrightarrow> \<exists>t. s i = Reply t \<and> gui_rejected loads t"
    using assms(2) by blast
  have "gui_attempts loads (scripted s) m 0 0 System_prompt None = (Inr v, Suc k)"
    by (intro gui_attempts_accepted [where lo = 0 and s = s and k = k, OF all assms(1,3,4)]) auto
  then show ?thesis by (simp add: gui_send_json_request_def)
qed

end
